theory Spec2Isabelle
  imports Complex_Main "HOL-Library.Sublist"
begin

section \<open>Configuration (config.py)\<close>

text \<open>
  \<^verbatim>\<open>RATE_LIMIT_CONFIG\<close> is a dictionary with fixed keys; the keys the rate limiter
  reads become the fields of a record. Ceilings and window lengths are Python integers.
\<close>

record rate_limit_config =
  requests_per_minute :: int
  requests_per_hour :: int
  requests_per_day :: int
  minute_window :: int
  hour_window :: int
  day_window :: int
  enable_headers :: bool

definition RATE_LIMIT_CONFIG :: rate_limit_config where
  "RATE_LIMIT_CONFIG =
     \<lparr>requests_per_minute = 3, requests_per_hour = 15, requests_per_day = 30,
      minute_window = 60, hour_window = 3600, day_window = 86400,
      enable_headers = True\<rparr>"

record bot_protection_config =
  block_bot_user_agents :: bool
  require_user_agent :: bool
  block_known_bot_ips :: bool
  bot_user_agent_patterns :: "string list"
  known_bot_ips :: "string list"
  allowed_user_agents :: "string list"

definition BOT_PROTECTION_CONFIG :: bot_protection_config where
  "BOT_PROTECTION_CONFIG =
     \<lparr>block_bot_user_agents = True, require_user_agent = True, block_known_bot_ips = False,
      bot_user_agent_patterns =
        [''bot'', ''crawler'', ''spider'', ''scraper'', ''scraper'', ''crawler'',
         ''python'', ''curl'', ''wget'', ''http'', ''java'', ''perl'', ''ruby'',
         ''go-http-client'', ''okhttp'', ''apache-httpclient'', ''requests'',
         ''urllib'', ''mechanize'', ''scrapy'', ''selenium'', ''phantomjs'',
         ''headless'', ''chrome-lighthouse'', ''googlebot'', ''bingbot'',
         ''yandex'', ''baiduspider'', ''facebookexternalhit'', ''twitterbot'',
         ''linkedinbot'', ''whatsapp'', ''telegrambot'', ''slackbot'',
         ''discordbot'', ''redditbot'', ''tumblr'', ''instagram'', ''pinterest''],
      known_bot_ips = [],
      allowed_user_agents = [''instafit-extension'', ''instafit-mobile'']\<rparr>"

section \<open>The rate limiter's storage (rate\_limiter.py, class RateLimiter)\<close>

text \<open>
  The three window names \<^verbatim>\<open>'minute'\<close>, \<^verbatim>\<open>'hour'\<close>, \<^verbatim>\<open>'day'\<close> are the keys of every
  client's dictionary of deques and select the configuration entries
  \<^verbatim>\<open>requests_per_<w>\<close> and \<^verbatim>\<open><w>_window\<close>.
\<close>

datatype window_type = Minute | Hour | Day

fun window_name :: "window_type \<Rightarrow> string" where
  "window_name Minute = ''minute''"
| "window_name Hour = ''hour''"
| "window_name Day = ''day''"

fun window_seconds :: "rate_limit_config \<Rightarrow> window_type \<Rightarrow> int" where
  "window_seconds cfg Minute = minute_window cfg"
| "window_seconds cfg Hour = hour_window cfg"
| "window_seconds cfg Day = day_window cfg"

fun requests_per :: "rate_limit_config \<Rightarrow> window_type \<Rightarrow> int" where
  "requests_per cfg Minute = requests_per_minute cfg"
| "requests_per cfg Hour = requests_per_hour cfg"
| "requests_per cfg Day = requests_per_day cfg"

text \<open>
  A client's record is the dictionary \<^verbatim>\<open>{'minute': deque(), 'hour': deque(), 'day': deque()}\<close>:
  one deque of timestamps per window, oldest at the head. \<^verbatim>\<open>time.time()\<close> is a float;
  timestamps are modelled as reals, and every operation takes the clock reading \<open>now\<close>
  as an argument (the clock readings made inside one operation are taken to be the same
  instant). The store is a \<^verbatim>\<open>defaultdict\<close>: reading a missing key inserts a fresh record.
\<close>

type_synonym client_record = "window_type \<Rightarrow> real list"

type_synonym storage = "string \<rightharpoonup> client_record"

definition new_record :: client_record where
  "new_record = (\<lambda>w. [])"

definition getitem :: "storage \<Rightarrow> string \<Rightarrow> client_record \<times> storage" where
  "getitem s client_ip =
     (case s client_ip of
        Some r \<Rightarrow> (r, s)
      | None \<Rightarrow> (new_record, s(client_ip \<mapsto> new_record)))"

subsection \<open>\_cleanup\_old\_requests\<close>

text \<open>
  The \<^verbatim>\<open>while\<close> loop pops the head of the deque as long as the deque is non-empty and
  \<^verbatim>\<open>current_time - deque[0] > window_seconds\<close>.
\<close>

fun popleft_old :: "real \<Rightarrow> int \<Rightarrow> real list \<Rightarrow> real list" where
  "popleft_old current_time window [] = []"
| "popleft_old current_time window (t # ts) =
     (if current_time - t > of_int window then popleft_old current_time window ts else t # ts)"

definition cleanup_old_requests ::
  "rate_limit_config \<Rightarrow> real \<Rightarrow> string \<Rightarrow> window_type \<Rightarrow> storage \<Rightarrow> storage" where
  "cleanup_old_requests cfg current_time client_ip w s =
     (let window = window_seconds cfg w;
          (r, s1) = getitem s client_ip
      in s1(client_ip \<mapsto> r(w := popleft_old current_time window (r w))))"

subsection \<open>is\_rate\_limited\<close>

text \<open>
  The Python result is the tuple \<^verbatim>\<open>(False, None, None, None)\<close>, here \<open>Allowed\<close>, or
  \<^verbatim>\<open>(True, window_type, limit, current_requests)\<close>, here \<open>Denied\<close> with the same three
  components. The \<^verbatim>\<open>for\<close> loop over the three windows returns at the first window whose
  count has reached its ceiling.
\<close>

datatype limit_result = Allowed | Denied window_type int int

fun check_windows ::
  "rate_limit_config \<Rightarrow> real \<Rightarrow> string \<Rightarrow> window_type list \<Rightarrow> storage \<Rightarrow> limit_result \<times> storage" where
  "check_windows cfg current_time client_ip [] s = (Allowed, s)"
| "check_windows cfg current_time client_ip (w # ws) s =
     (let s1 = cleanup_old_requests cfg current_time client_ip w s;
          limit = requests_per cfg w;
          (r, s2) = getitem s1 client_ip;
          current_requests = int (length (r w))
      in if current_requests \<ge> limit then (Denied w limit current_requests, s2)
         else check_windows cfg current_time client_ip ws s2)"

definition is_rate_limited ::
  "rate_limit_config \<Rightarrow> real \<Rightarrow> string \<Rightarrow> storage \<Rightarrow> limit_result \<times> storage" where
  "is_rate_limited cfg current_time client_ip s =
     check_windows cfg current_time client_ip [Minute, Hour, Day] s"

subsection \<open>record\_request\<close>

fun append_windows :: "real \<Rightarrow> string \<Rightarrow> window_type list \<Rightarrow> storage \<Rightarrow> storage" where
  "append_windows current_time client_ip [] s = s"
| "append_windows current_time client_ip (w # ws) s =
     (let (r, s1) = getitem s client_ip
      in append_windows current_time client_ip ws
           (s1(client_ip \<mapsto> r(w := r w @ [current_time]))))"

definition record_request :: "real \<Rightarrow> string \<Rightarrow> storage \<Rightarrow> storage" where
  "record_request current_time client_ip s =
     append_windows current_time client_ip [Minute, Hour, Day] s"

subsection \<open>get\_remaining\_requests\<close>

text \<open>The returned dictionary, keyed by window name, is a function on the windows.\<close>

definition get_remaining_requests ::
  "rate_limit_config \<Rightarrow> real \<Rightarrow> string \<Rightarrow> storage \<Rightarrow> (window_type \<Rightarrow> int) \<times> storage" where
  "get_remaining_requests cfg current_time client_ip s =
     (let s1 = cleanup_old_requests cfg current_time client_ip Minute s;
          s2 = cleanup_old_requests cfg current_time client_ip Hour s1;
          s3 = cleanup_old_requests cfg current_time client_ip Day s2;
          (r, s4) = getitem s3 client_ip
      in (\<lambda>w. requests_per cfg w - int (length (r w)), s4))"

subsection \<open>reset\_rate\_limit\<close>

definition reset_rate_limit :: "string \<Rightarrow> storage \<Rightarrow> bool \<times> storage" where
  "reset_rate_limit client_ip s =
     (if s client_ip \<noteq> None then (True, s(client_ip := None)) else (False, s))"

section \<open>Bot protection (rate\_limiter.py, class BotProtector)\<close>

text \<open>
  The part of a Flask request that the gate reads: three optional headers and the peer
  address. Strings are lists of bytes; \<^verbatim>\<open>str.lower\<close> and \<^verbatim>\<open>str.strip\<close> are modelled on
  their ASCII behaviour (bytes outside ASCII are left unchanged).
\<close>

record request =
  x_forwarded_for :: "string option"
  x_real_ip :: "string option"
  user_agent :: "string option"
  remote_addr :: string

definition lower_char :: "char \<Rightarrow> char" where
  "lower_char c =
     (case map_of (zip ''ABCDEFGHIJKLMNOPQRSTUVWXYZ'' ''abcdefghijklmnopqrstuvwxyz'') c of
        Some l \<Rightarrow> l
      | None \<Rightarrow> c)"

definition lower :: "string \<Rightarrow> string" where
  "lower s = map lower_char s"

definition is_space :: "char \<Rightarrow> bool" where
  "is_space c =
     (c \<in> set [CHR 0x09, CHR 0x0A, CHR 0x0B, CHR 0x0C, CHR 0x0D,
                CHR 0x1C, CHR 0x1D, CHR 0x1E, CHR 0x1F, CHR '' ''])"

definition strip :: "string \<Rightarrow> string" where
  "strip s = rev (dropWhile is_space (rev (dropWhile is_space s)))"

text \<open>\<^verbatim>\<open>a in b\<close> on strings: \<open>a\<close> occurs in \<open>b\<close> as a contiguous substring.\<close>

fun startswith :: "string \<Rightarrow> string \<Rightarrow> bool" where
  "startswith b [] = True"
| "startswith [] (x # a) = False"
| "startswith (y # b) (x # a) = (x = y \<and> startswith b a)"

fun str_in :: "string \<Rightarrow> string \<Rightarrow> bool" where
  "str_in a [] = (a = [])"
| "str_in a (y # b) = (startswith (y # b) a \<or> str_in a b)"

definition get_user_agent :: "request \<Rightarrow> string" where
  "get_user_agent req = lower (case user_agent req of None \<Rightarrow> [] | Some ua \<Rightarrow> ua)"

text \<open>
  Both loops of \<^verbatim>\<open>_is_bot_user_agent\<close> have the shape
  \<^verbatim>\<open>for p in patterns: if p.lower() in user_agent: return ...\<close>.
\<close>

fun any_pattern_in :: "string list \<Rightarrow> string \<Rightarrow> bool" where
  "any_pattern_in [] ua = False"
| "any_pattern_in (p # ps) ua = (if str_in (lower p) ua then True else any_pattern_in ps ua)"

definition is_bot_user_agent :: "bot_protection_config \<Rightarrow> string \<Rightarrow> bool" where
  "is_bot_user_agent cfg ua =
     (if \<not> block_bot_user_agents cfg then False
      else if any_pattern_in (allowed_user_agents cfg) ua then False
      else if any_pattern_in (bot_user_agent_patterns cfg) ua then True
      else False)"

definition is_known_bot_ip :: "bot_protection_config \<Rightarrow> string \<Rightarrow> bool" where
  "is_known_bot_ip cfg client_ip =
     (if \<not> block_known_bot_ips cfg then False
      else client_ip \<in> set (known_bot_ips cfg))"

definition has_required_headers :: "bot_protection_config \<Rightarrow> request \<Rightarrow> bool" where
  "has_required_headers cfg req =
     (if \<not> require_user_agent cfg then True
      else (case user_agent req of None \<Rightarrow> False | Some ua \<Rightarrow> strip ua \<noteq> []))"

definition is_bot :: "bot_protection_config \<Rightarrow> request \<Rightarrow> string \<Rightarrow> bool \<times> string option" where
  "is_bot cfg req client_ip =
     (let ua = get_user_agent req
      in if \<not> has_required_headers cfg req then (True, Some ''Missing required headers'')
         else if is_bot_user_agent cfg ua then (True, Some (''Bot user agent detected: '' @ ua))
         else if is_known_bot_ip cfg client_ip then (True, Some ''Known bot IP'')
         else (False, None))"

section \<open>The gate (rate\_limiter.py, rate\_limit\_and\_protect)\<close>

text \<open>\<^verbatim>\<open>_get_client_ip\<close>: a header that is absent or empty is falsy.\<close>

fun truthy :: "string option \<Rightarrow> bool" where
  "truthy None = False"
| "truthy (Some v) = (v \<noteq> [])"

fun header_value :: "string option \<Rightarrow> string" where
  "header_value None = []"
| "header_value (Some v) = v"

definition get_client_ip :: "request \<Rightarrow> string" where
  "get_client_ip req =
     (if truthy (x_forwarded_for req)
      then strip (takeWhile (\<lambda>c. c \<noteq> CHR '','') (header_value (x_forwarded_for req)))
      else if truthy (x_real_ip req) then header_value (x_real_ip req)
      else remote_addr req)"

text \<open>\<^verbatim>\<open>str\<close> of an integer and \<^verbatim>\<open>int\<close> of a float (truncation towards zero).\<close>

fun str_nat :: "nat \<Rightarrow> string" where
  "str_nat n =
     (if n < 10 then [''0123456789'' ! n]
      else str_nat (n div 10) @ [''0123456789'' ! (n mod 10)])"

declare str_nat.simps [simp del]

definition str_int :: "int \<Rightarrow> string" where
  "str_int i = (if i < 0 then CHR ''-'' # str_nat (nat (- i)) else str_nat (nat i))"

definition py_int :: "real \<Rightarrow> int" where
  "py_int x = (if 0 \<le> x then \<lfloor>x\<rfloor> else \<lceil>x\<rceil>)"

text \<open>
  Responses. A view returns either a response object or a pair of one and a status code;
  the object may or may not carry a \<^verbatim>\<open>headers\<close> attribute. The bodies built by the gate
  itself are the two JSON error objects; \<open>Payload\<close> is whatever the wrapped view built.
\<close>

datatype 'b json_body =
    AccessDenied string string "string option"
  | RateLimitExceeded string string int int int
  | Payload 'b

record 'b flask_response =
  body :: "'b json_body"
  headers :: "string \<rightharpoonup> string"

datatype 'b view_value = WithHeaders "'b flask_response" | NoHeaders 'b

datatype 'b view_result = RespTuple "'b view_value" int | RespOnly "'b view_value"

definition jsonify :: "'b json_body \<Rightarrow> 'b flask_response" where
  "jsonify b = \<lparr>body = b, headers = Map.empty\<rparr>"

definition set_limit_headers ::
  "rate_limit_config \<Rightarrow> real \<Rightarrow> window_type \<Rightarrow> int \<Rightarrow> 'b flask_response \<Rightarrow> 'b flask_response" where
  "set_limit_headers cfg current_time w limit response =
     response\<lparr>headers := (headers response)
       (''X-RateLimit-Limit'' \<mapsto> str_int limit,
        ''X-RateLimit-Remaining'' \<mapsto> ''0'',
        ''X-RateLimit-Reset'' \<mapsto> str_int (py_int (current_time + of_int (window_seconds cfg w))),
        ''Retry-After'' \<mapsto> str_int (window_seconds cfg w))\<rparr>"

definition set_quota_headers ::
  "rate_limit_config \<Rightarrow> (window_type \<Rightarrow> int) \<Rightarrow> 'b view_value \<Rightarrow> 'b view_value" where
  "set_quota_headers cfg remaining v =
     (case v of
        NoHeaders x \<Rightarrow> NoHeaders x
      | WithHeaders response \<Rightarrow>
          WithHeaders (response\<lparr>headers := (headers response)
            (''X-RateLimit-Limit-Minute'' \<mapsto> str_int (requests_per_minute cfg),
             ''X-RateLimit-Limit-Hour'' \<mapsto> str_int (requests_per_hour cfg),
             ''X-RateLimit-Limit-Day'' \<mapsto> str_int (requests_per_day cfg),
             ''X-RateLimit-Remaining-Minute'' \<mapsto> str_int (remaining Minute),
             ''X-RateLimit-Remaining-Hour'' \<mapsto> str_int (remaining Hour),
             ''X-RateLimit-Remaining-Day'' \<mapsto> str_int (remaining Day))\<rparr>))"

text \<open>
  The wrapped view \<open>f\<close> sees the request context set by the gate (\<^verbatim>\<open>g.client_ip\<close>,
  \<^verbatim>\<open>g.rate_limit_info\<close>) and the limiter's store, which it may change (the status view
  calls \<^verbatim>\<open>get_rate_limit_info\<close>).
\<close>

type_synonym 'b view =
  "string \<Rightarrow> (window_type \<Rightarrow> int) \<Rightarrow> storage \<Rightarrow> 'b view_result \<times> storage"

definition rate_limit_and_protect ::
  "'b view \<Rightarrow> rate_limit_config \<Rightarrow> bot_protection_config \<Rightarrow> real \<Rightarrow> request \<Rightarrow> storage
     \<Rightarrow> 'b view_result \<times> storage" where
  "rate_limit_and_protect f cfg bot_cfg current_time req s =
     (let client_ip = get_client_ip req;
          (bot, bot_reason) = is_bot bot_cfg req client_ip
      in if bot
         then (RespTuple (WithHeaders (jsonify
                 (AccessDenied ''Access denied'' ''Bot detection'' bot_reason))) 403, s)
         else
           (case is_rate_limited cfg current_time client_ip s of
              (Denied w limit current, s1) \<Rightarrow>
                (let response = jsonify (RateLimitExceeded ''Rate limit exceeded''
                       (window_name w) limit current (window_seconds cfg w));
                     response' = (if enable_headers cfg
                                  then set_limit_headers cfg current_time w limit response
                                  else response)
                 in (RespTuple (WithHeaders response') 429, s1))
            | (Allowed, s1) \<Rightarrow>
                (let s2 = record_request current_time client_ip s1;
                     (rate_limit_info, s3) = get_remaining_requests cfg current_time client_ip s2
                 in if enable_headers cfg
                    then (let (remaining, s4) = get_remaining_requests cfg current_time client_ip s3;
                              (response, s5) = f client_ip rate_limit_info s4
                          in (case response of
                                RespTuple flask_response status_code \<Rightarrow>
                                  (RespTuple (set_quota_headers cfg remaining flask_response) status_code, s5)
                              | RespOnly r \<Rightarrow>
                                  (RespOnly (set_quota_headers cfg remaining r), s5)))
                    else f client_ip rate_limit_info s3)))"

section \<open>Sequences of limiter operations\<close>

text \<open>
  The gate's use of the limiter: check, and record only when the check allowed the request.
\<close>

definition admit_and_record ::
  "rate_limit_config \<Rightarrow> real \<Rightarrow> string \<Rightarrow> storage \<Rightarrow> limit_result \<times> storage" where
  "admit_and_record cfg current_time client_ip s =
     (case is_rate_limited cfg current_time client_ip s of
        (Allowed, s1) \<Rightarrow> (Allowed, record_request current_time client_ip s1)
      | (Denied w limit current, s1) \<Rightarrow> (Denied w limit current, s1))"

fun admit_sequence ::
  "rate_limit_config \<Rightarrow> string \<Rightarrow> real list \<Rightarrow> storage \<Rightarrow> limit_result list \<times> storage" where
  "admit_sequence cfg client_ip [] s = ([], s)"
| "admit_sequence cfg client_ip (t # ts) s =
     (let (res, s1) = admit_and_record cfg t client_ip s;
          (rs, s2) = admit_sequence cfg client_ip ts s1
      in (res # rs, s2))"

text \<open>
  The public operations of the limiter as commands, to speak about every state the store
  can reach. \<open>Serve\<close> is the gate's check-then-record; \<open>Record\<close> is a bare
  \<^verbatim>\<open>record_request\<close> with no check before it.
\<close>

datatype operation =
    Check string real
  | Record string real
  | Serve string real
  | Remaining string real
  | Reset string

fun apply_operation :: "rate_limit_config \<Rightarrow> operation \<Rightarrow> storage \<Rightarrow> storage" where
  "apply_operation cfg (Check ip t) s = snd (is_rate_limited cfg t ip s)"
| "apply_operation cfg (Record ip t) s = record_request t ip s"
| "apply_operation cfg (Serve ip t) s = snd (admit_and_record cfg t ip s)"
| "apply_operation cfg (Remaining ip t) s = snd (get_remaining_requests cfg t ip s)"
| "apply_operation cfg (Reset ip) s = snd (reset_rate_limit ip s)"

fun run :: "rate_limit_config \<Rightarrow> operation list \<Rightarrow> storage \<Rightarrow> storage" where
  "run cfg [] s = s"
| "run cfg (op # ops) s = run cfg ops (apply_operation cfg op s)"

fun operation_times :: "operation list \<Rightarrow> real list" where
  "operation_times [] = []"
| "operation_times (Check ip t # ops) = t # operation_times ops"
| "operation_times (Record ip t # ops) = t # operation_times ops"
| "operation_times (Serve ip t # ops) = t # operation_times ops"
| "operation_times (Remaining ip t # ops) = t # operation_times ops"
| "operation_times (Reset ip # ops) = operation_times ops"

fun bare_record :: "operation \<Rightarrow> bool" where
  "bare_record (Record ip t) = True"
| "bare_record op = False"

text \<open>The record a lookup finds or creates, and a record with every window pruned.\<close>

definition rec_of :: "storage \<Rightarrow> string \<Rightarrow> client_record" where
  "rec_of s client_ip = (case s client_ip of Some r \<Rightarrow> r | None \<Rightarrow> new_record)"

definition pruned :: "rate_limit_config \<Rightarrow> real \<Rightarrow> client_record \<Rightarrow> client_record" where
  "pruned cfg current_time r = (\<lambda>w. popleft_old current_time (window_seconds cfg w) (r w))"

section \<open>Concrete requests and views\<close>

text \<open>
  The health view of app.py answers with a JSON object that embeds \<^verbatim>\<open>g.rate_limit_info\<close>
  (the other fields are constants) and does not touch the limiter's store.
\<close>

definition health_check :: "(window_type \<Rightarrow> int) view" where
  "health_check client_ip rate_limit_info s =
     (RespOnly (WithHeaders (jsonify (Payload rate_limit_info))), s)"

definition ua_request :: "string \<Rightarrow> request" where
  "ua_request ua = \<lparr>x_forwarded_for = None, x_real_ip = None, user_agent = Some ua,
                     remote_addr = ''9.9.9.9''\<rparr>"

definition no_agent_request :: request where
  "no_agent_request = \<lparr>x_forwarded_for = Some ''9.9.9.9, 10.0.0.1'', x_real_ip = None,
                        user_agent = None, remote_addr = ''10.0.0.1''\<rparr>"

text \<open>The shipped bot configuration with the optional known-bot IP list switched on.\<close>

definition ip_blocking_config :: bot_protection_config where
  "ip_blocking_config =
     BOT_PROTECTION_CONFIG\<lparr>block_known_bot_ips := True, known_bot_ips := [''6.6.6.6'']\<rparr>"

section \<open>Basic facts about the store\<close>

lemma getitem_eq: "getitem s ip = (rec_of s ip, s(ip \<mapsto> rec_of s ip))"
  by (auto simp: getitem_def rec_of_def split: option.splits)

lemma rec_of_upd [simp]: "rec_of (s(ip \<mapsto> r)) ip = r"
  by (simp add: rec_of_def)

lemma rec_of_upd_other [simp]: "ip' \<noteq> ip \<Longrightarrow> rec_of (s(ip \<mapsto> r)) ip' = rec_of s ip'"
  by (simp add: rec_of_def)

lemma rec_of_None: "s ip = None \<Longrightarrow> rec_of s ip = new_record"
  by (simp add: rec_of_def)

lemma rec_of_Some: "s ip = Some r \<Longrightarrow> rec_of s ip = r"
  by (simp add: rec_of_def)

lemma cleanup_eq:
  "cleanup_old_requests cfg now ip w s =
     s(ip \<mapsto> (rec_of s ip)(w := popleft_old now (window_seconds cfg w) (rec_of s ip w)))"
  by (simp add: cleanup_old_requests_def getitem_eq)

lemma popleft_old_dropWhile:
  "popleft_old now W ts = dropWhile (\<lambda>t. now - t > of_int W) ts"
  by (induction ts) auto

lemma popleft_old_idem [simp]:
  "popleft_old now W (popleft_old now W ts) = popleft_old now W ts"
  by (induction ts) auto

lemma pruned_idem [simp]: "pruned cfg now (pruned cfg now r) = pruned cfg now r"
  by (simp add: pruned_def)

lemma record_request_eq:
  "record_request now ip s = s(ip \<mapsto> (\<lambda>w. rec_of s ip w @ [now]))"
proof -
  have "(rec_of s ip)(Minute := rec_of s ip Minute @ [now], Hour := rec_of s ip Hour @ [now],
          Day := rec_of s ip Day @ [now]) = (\<lambda>w. rec_of s ip w @ [now])"
    by (rule ext, rename_tac w, case_tac w) simp_all
  then show ?thesis
    by (simp add: record_request_def getitem_eq)
qed

lemma cleanup_all_eq:
  "cleanup_old_requests cfg now ip Day
     (cleanup_old_requests cfg now ip Hour (cleanup_old_requests cfg now ip Minute s)) =
   s(ip \<mapsto> pruned cfg now (rec_of s ip))"
proof -
  let ?r = "rec_of s ip"
  have "?r(Minute := popleft_old now (minute_window cfg) (?r Minute),
           Hour := popleft_old now (hour_window cfg) (?r Hour),
           Day := popleft_old now (day_window cfg) (?r Day)) = pruned cfg now ?r"
    by (rule ext, rename_tac w, case_tac w) (simp_all add: pruned_def)
  then show ?thesis
    by (simp add: cleanup_eq)
qed

lemma get_remaining_eq:
  "get_remaining_requests cfg now ip s =
     (\<lambda>w. requests_per cfg w - int (length (pruned cfg now (rec_of s ip) w)),
      s(ip \<mapsto> pruned cfg now (rec_of s ip)))"
  by (simp add: get_remaining_requests_def Let_def cleanup_all_eq getitem_eq)

lemma is_rate_limited_eq:
  "is_rate_limited cfg now ip s =
     (let r = rec_of s ip; p = pruned cfg now r in
      if requests_per_minute cfg \<le> int (length (p Minute))
      then (Denied Minute (requests_per_minute cfg) (int (length (p Minute))),
            s(ip \<mapsto> r(Minute := p Minute)))
      else if requests_per_hour cfg \<le> int (length (p Hour))
      then (Denied Hour (requests_per_hour cfg) (int (length (p Hour))),
            s(ip \<mapsto> r(Minute := p Minute, Hour := p Hour)))
      else if requests_per_day cfg \<le> int (length (p Day))
      then (Denied Day (requests_per_day cfg) (int (length (p Day))), s(ip \<mapsto> p))
      else (Allowed, s(ip \<mapsto> p)))"
proof -
  let ?r = "rec_of s ip"
  have "?r(Minute := pruned cfg now ?r Minute, Hour := pruned cfg now ?r Hour,
           Day := pruned cfg now ?r Day) = pruned cfg now ?r"
    by (rule ext, rename_tac w, case_tac w) simp_all
  then show ?thesis
    by (simp add: is_rate_limited_def cleanup_eq getitem_eq Let_def pruned_def)
qed

section \<open>Pruning\<close>

lemma popleft_old_split:
  "\<exists>old. ts = old @ popleft_old now W ts \<and> (\<forall>t\<in>set old. t < now - of_int W)"
proof (induction ts)
  case Nil
  show ?case by simp
next
  case (Cons a ts)
  show ?case
  proof (cases "now - a > of_int W")
    case True
    from Cons obtain old where o: "ts = old @ popleft_old now W ts" "\<forall>t\<in>set old. t < now - of_int W"
      by blast
    from o(1) have "a # ts = (a # old) @ popleft_old now W ts" by simp
    moreover have "\<forall>t\<in>set (a # old). t < now - of_int W" using True o(2) by auto
    ultimately show ?thesis using True
      by (metis popleft_old.simps(2))
  next
    case False
    then have "a # ts = [] @ popleft_old now W (a # ts)" by simp
    then show ?thesis by (metis empty_iff list.set(1))
  qed
qed

lemma popleft_old_fresh:
  "\<forall>t\<in>set ts. now - t \<le> of_int W \<Longrightarrow> popleft_old now W ts = ts"
  by (cases ts) auto

lemma rec_of_cleanup_same:
  "rec_of (cleanup_old_requests cfg now ip w s) ip w =
     popleft_old now (window_seconds cfg w) (rec_of s ip w)"
  by (simp add: cleanup_eq)

text \<open>
  C7. Pruning is a total function of the store and the clock reading, whatever the order
  of the clock and the stored timestamps. What it removes is a prefix of the window's
  sequence, and every removed timestamp is strictly older than \<open>now\<close> minus the window's
  duration: no entry at or after that instant is removed, and what is kept is the rest
  of the sequence in its order. In particular, when the clock has moved backward so that
  every stored timestamp lies in the future of \<open>now\<close> (and the window duration is not
  negative), pruning removes nothing.
\<close>

theorem cleanup_clock_backward:
  "(\<exists>old. rec_of s ip w = old @ rec_of (cleanup_old_requests cfg now ip w s) ip w
          \<and> (\<forall>t\<in>set old. t < now - of_int (window_seconds cfg w)))
   \<and> (0 \<le> window_seconds cfg w \<longrightarrow> (\<forall>t\<in>set (rec_of s ip w). now \<le> t)
        \<longrightarrow> rec_of (cleanup_old_requests cfg now ip w s) ip w = rec_of s ip w)"
proof -
  have "\<forall>t\<in>set (rec_of s ip w). now - t \<le> of_int (window_seconds cfg w)"
    if "0 \<le> window_seconds cfg w" "\<forall>t\<in>set (rec_of s ip w). now \<le> t"
  proof
    fix t assume "t \<in> set (rec_of s ip w)"
    with that(2) have "now - t \<le> 0" by simp
    moreover have "(0::real) \<le> of_int (window_seconds cfg w)" using that(1) by simp
    ultimately show "now - t \<le> of_int (window_seconds cfg w)" by linarith
  qed
  then show ?thesis
    using popleft_old_split [of "rec_of s ip w" now "window_seconds cfg w"]
    by (simp add: rec_of_cleanup_same popleft_old_fresh)
qed

theorem cleanup_clock_backward_witness:
  "0 \<le> window_seconds RATE_LIMIT_CONFIG Minute
   \<and> list_all (\<lambda>t. 50 \<le> t)
        (rec_of (record_request 70 ''9.9.9.9'' (record_request 100 ''9.9.9.9'' Map.empty))
           ''9.9.9.9'' Minute)
   \<and> rec_of (cleanup_old_requests RATE_LIMIT_CONFIG 50 ''9.9.9.9'' Minute
        (record_request 70 ''9.9.9.9'' (record_request 100 ''9.9.9.9'' Map.empty)))
        ''9.9.9.9'' Minute = [100, 70]"
  using cleanup_clock_backward [of "record_request 70 ''9.9.9.9'' (record_request 100 ''9.9.9.9'' Map.empty)"
      "''9.9.9.9''" Minute RATE_LIMIT_CONFIG 50]
  by (simp add: record_request_eq rec_of_None new_record_def RATE_LIMIT_CONFIG_def)

section \<open>Zero ceilings\<close>

text \<open>
  C6. When the ceiling of any window is zero, the admission check returns a denial for
  every identity, every clock reading and every store (the check is a total function, so
  there is no error case); with a zero minute ceiling, an identity with no record at all
  is denied by the minute window with limit 0 and current count 0.
\<close>

theorem zero_ceiling_denies:
  "(requests_per cfg w = 0 \<longrightarrow> fst (is_rate_limited cfg now ip s) \<noteq> Allowed)
   \<and> (requests_per_minute cfg = 0 \<longrightarrow> s ip = None \<longrightarrow>
        fst (is_rate_limited cfg now ip s) = Denied Minute 0 0)"
  by (cases w) (auto simp: is_rate_limited_eq Let_def rec_of_None pruned_def new_record_def)

theorem zero_ceiling_denies_witness:
  "requests_per (RATE_LIMIT_CONFIG\<lparr>requests_per_minute := 0\<rparr>) Minute = 0
   \<and> (Map.empty :: storage) ''9.9.9.9'' = None
   \<and> fst (is_rate_limited (RATE_LIMIT_CONFIG\<lparr>requests_per_minute := 0\<rparr>) 5 ''9.9.9.9'' Map.empty)
       = Denied Minute 0 0"
  using zero_ceiling_denies [of "RATE_LIMIT_CONFIG\<lparr>requests_per_minute := 0\<rparr>" Minute 5 "''9.9.9.9''" Map.empty]
  by (simp add: RATE_LIMIT_CONFIG_def)

section \<open>Reset\<close>

lemma admit_and_record_dom: "snd (admit_and_record cfg t ip s) ip \<noteq> None"
  by (simp add: admit_and_record_def is_rate_limited_eq Let_def record_request_eq)

text \<open>
  C9. After a request of an identity has been admitted and recorded, reset of that
  identity returns true and removes its record, and the remaining-quota query that follows
  reports the configured ceiling of every window. Reset of an identity that has no record
  returns false and leaves the store as it was.
\<close>

theorem reset_discards_record:
  "(fst (admit_and_record cfg t ip s0) = Allowed \<longrightarrow>
      fst (reset_rate_limit ip (snd (admit_and_record cfg t ip s0))) = True
      \<and> snd (reset_rate_limit ip (snd (admit_and_record cfg t ip s0))) ip = None
      \<and> fst (get_remaining_requests cfg now ip
               (snd (reset_rate_limit ip (snd (admit_and_record cfg t ip s0))))) = requests_per cfg)
   \<and> (s ip = None \<longrightarrow> reset_rate_limit ip s = (False, s))"
  using admit_and_record_dom [of cfg t ip s0]
  by (auto simp: reset_rate_limit_def get_remaining_eq rec_of_None pruned_def new_record_def)

theorem reset_discards_record_witness:
  "fst (admit_and_record RATE_LIMIT_CONFIG 1 ''9.9.9.9'' Map.empty) = Allowed
   \<and> fst (reset_rate_limit ''9.9.9.9'' (snd (admit_and_record RATE_LIMIT_CONFIG 1 ''9.9.9.9'' Map.empty)))
   \<and> fst (get_remaining_requests RATE_LIMIT_CONFIG 2 ''9.9.9.9''
        (snd (reset_rate_limit ''9.9.9.9''
           (snd (admit_and_record RATE_LIMIT_CONFIG 1 ''9.9.9.9'' Map.empty))))) = requests_per RATE_LIMIT_CONFIG
   \<and> (Map.empty :: storage) ''9.9.9.9'' = None
   \<and> reset_rate_limit ''9.9.9.9'' (Map.empty :: storage) = (False, Map.empty)"
proof -
  have a: "fst (admit_and_record RATE_LIMIT_CONFIG 1 ''9.9.9.9'' Map.empty) = Allowed"
    by (simp add: admit_and_record_def is_rate_limited_eq Let_def rec_of_None pruned_def
        new_record_def RATE_LIMIT_CONFIG_def)
  have e: "(Map.empty :: storage) ''9.9.9.9'' = None"
    by simp
  note r = reset_discards_record [where cfg = RATE_LIMIT_CONFIG and t = 1 and ip = "''9.9.9.9''"
      and ?s0.0 = Map.empty and s = Map.empty and now = 2]
  from r a e show ?thesis
    by blast
qed

text \<open>
  C10. A query creates state. For an identity with no record, the remaining-quota query
  and the admission check each leave a fresh empty record for it in the store, so a reset
  that follows either of them returns true, while a reset with no query before it returns
  false.
\<close>

theorem query_creates_record:
  "s ip = None \<Longrightarrow>
     snd (get_remaining_requests cfg now ip s) ip = Some new_record
     \<and> fst (reset_rate_limit ip (snd (get_remaining_requests cfg now ip s))) = True
     \<and> snd (is_rate_limited cfg now ip s) ip = Some new_record
     \<and> fst (reset_rate_limit ip (snd (is_rate_limited cfg now ip s))) = True
     \<and> fst (reset_rate_limit ip s) = False"
proof -
  assume n: "s ip = None"
  have p: "pruned cfg now new_record = new_record"
    by (simp add: pruned_def new_record_def)
  have u: "new_record(w := []) = new_record" for w :: window_type
    by (simp add: new_record_def fun_eq_iff)
  have g: "snd (get_remaining_requests cfg now ip s) ip = Some new_record"
    using n by (simp add: get_remaining_eq rec_of_None p)
  have i: "snd (is_rate_limited cfg now ip s) ip = Some new_record"
    using n by (simp add: is_rate_limited_eq Let_def rec_of_None p u)
  show ?thesis using g i n by (simp add: reset_rate_limit_def)
qed

theorem query_creates_record_witness:
  "(Map.empty :: storage) ''9.9.9.9'' = None
   \<and> fst (reset_rate_limit ''9.9.9.9'' (snd (get_remaining_requests RATE_LIMIT_CONFIG 7 ''9.9.9.9'' Map.empty)))
   \<and> fst (reset_rate_limit ''9.9.9.9'' (snd (is_rate_limited RATE_LIMIT_CONFIG 7 ''9.9.9.9'' Map.empty)))
   \<and> \<not> fst (reset_rate_limit ''9.9.9.9'' (Map.empty :: storage))"
  using query_creates_record [of Map.empty "''9.9.9.9''" RATE_LIMIT_CONFIG 7]
  by simp

section \<open>A denied check and the remaining quota\<close>

lemma remaining_after_check:
  "fst (get_remaining_requests cfg now ip' (snd (is_rate_limited cfg now ip s))) =
   fst (get_remaining_requests cfg now ip' s)"
proof (cases "ip' = ip")
  case False
  then show ?thesis
    by (simp add: get_remaining_eq is_rate_limited_eq Let_def)
next
  case True
  let ?r = "rec_of s ip"
  have m: "pruned cfg now (?r(Minute := pruned cfg now ?r Minute)) = pruned cfg now ?r"
    by (rule ext, rename_tac w, case_tac w) (simp_all add: pruned_def)
  have h: "pruned cfg now (?r(Minute := pruned cfg now ?r Minute, Hour := pruned cfg now ?r Hour))
             = pruned cfg now ?r"
    by (rule ext, rename_tac w, case_tac w) (simp_all add: pruned_def)
  show ?thesis
    using True by (simp add: get_remaining_eq is_rate_limited_eq Let_def m h)
qed

lemma length_popleft_old: "length (popleft_old now W ts) \<le> length ts"
  by (induction ts) auto

lemma length_pruned: "length (pruned cfg now r w) \<le> length (r w)"
  by (simp add: pruned_def length_popleft_old)

lemma check_never_grows:
  "length (rec_of (snd (is_rate_limited cfg now ip s)) ip' w) \<le> length (rec_of s ip' w)"
proof (cases "ip' = ip")
  case False
  then show ?thesis by (simp add: is_rate_limited_eq Let_def)
next
  case True
  then show ?thesis
    by (simp add: is_rate_limited_eq Let_def length_pruned)
qed

text \<open>
  C4. When the admission check at \<open>now\<close> denies an identity, the remaining-quota figures
  of that identity at the same \<open>now\<close> are the same after the check as before it, and no
  sequence of any identity has grown: the check prunes, it never appends.
\<close>

theorem denied_check_keeps_remaining:
  "fst (is_rate_limited cfg now ip s) = Denied w limit current \<Longrightarrow>
     fst (get_remaining_requests cfg now ip (snd (is_rate_limited cfg now ip s))) =
       fst (get_remaining_requests cfg now ip s)
     \<and> (\<forall>ip' w'. length (rec_of (snd (is_rate_limited cfg now ip s)) ip' w')
                    \<le> length (rec_of s ip' w'))"
  by (simp add: remaining_after_check check_never_grows)

theorem denied_check_keeps_remaining_witness:
  "fst (is_rate_limited (RATE_LIMIT_CONFIG\<lparr>requests_per_minute := 1\<rparr>) 5 ''9.9.9.9''
          (record_request 1 ''9.9.9.9'' Map.empty)) = Denied Minute 1 1
   \<and> fst (get_remaining_requests (RATE_LIMIT_CONFIG\<lparr>requests_per_minute := 1\<rparr>) 5 ''9.9.9.9''
        (snd (is_rate_limited (RATE_LIMIT_CONFIG\<lparr>requests_per_minute := 1\<rparr>) 5 ''9.9.9.9''
           (record_request 1 ''9.9.9.9'' Map.empty)))) =
       fst (get_remaining_requests (RATE_LIMIT_CONFIG\<lparr>requests_per_minute := 1\<rparr>) 5 ''9.9.9.9''
        (record_request 1 ''9.9.9.9'' Map.empty))"
proof -
  have d: "fst (is_rate_limited (RATE_LIMIT_CONFIG\<lparr>requests_per_minute := 1\<rparr>) 5 ''9.9.9.9''
          (record_request 1 ''9.9.9.9'' Map.empty)) = Denied Minute 1 1"
    by (simp add: is_rate_limited_eq Let_def record_request_eq rec_of_None new_record_def
        pruned_def RATE_LIMIT_CONFIG_def)
  from d denied_check_keeps_remaining [OF d] show ?thesis
    by blast
qed

section \<open>Bot classification\<close>

lemma startswith_iff: "startswith b a \<longleftrightarrow> (\<exists>post. b = a @ post)"
  by (induction b a rule: startswith.induct) auto

lemma str_in_iff: "str_in a b \<longleftrightarrow> (\<exists>pre post. b = pre @ a @ post)"
proof (induction b)
  case Nil
  show ?case by auto
next
  case (Cons y b)
  show ?case
  proof
    assume "str_in a (y # b)"
    then consider "startswith (y # b) a" | "str_in a b" by auto
    then show "\<exists>pre post. y # b = pre @ a @ post"
    proof cases
      case 1
      then obtain post where "y # b = a @ post" by (auto simp: startswith_iff)
      then have "y # b = [] @ a @ post" by simp
      then show ?thesis by blast
    next
      case 2
      with Cons obtain pre post where "b = pre @ a @ post" by blast
      then have "y # b = (y # pre) @ a @ post" by simp
      then show ?thesis by blast
    qed
  next
    assume "\<exists>pre post. y # b = pre @ a @ post"
    then obtain pre post where e: "y # b = pre @ a @ post" by blast
    show "str_in a (y # b)"
    proof (cases pre)
      case Nil
      with e have "startswith (y # b) a" by (auto simp: startswith_iff)
      then show ?thesis by simp
    next
      case (Cons p pre')
      with e have "b = pre' @ a @ post" by simp
      with Cons.IH have "str_in a b" by blast
      then show ?thesis by simp
    qed
  qed
qed

lemma lower_append: "lower (x @ y) = lower x @ lower y"
  by (simp add: lower_def)

lemma any_pattern_in_iff: "any_pattern_in ps ua \<longleftrightarrow> (\<exists>p\<in>set ps. str_in (lower p) ua)"
  by (induction ps) auto

lemma whitelisted_not_bot_user_agent:
  assumes "a \<in> set (allowed_user_agents cfg)" and "lower m = lower a"
  shows "\<not> is_bot_user_agent cfg (lower (pre @ m @ post))"
proof -
  have "str_in (lower a) (lower (pre @ m @ post))"
    using assms(2) by (auto simp: str_in_iff lower_append)
  with assms(1) have "any_pattern_in (allowed_user_agents cfg) (lower (pre @ m @ post))"
    by (auto simp: any_pattern_in_iff)
  then show ?thesis by (simp add: is_bot_user_agent_def)
qed

text \<open>
  C2 (as the code has it). When the required-header check passes and the user-agent
  contains, up to ASCII case, an entry of the whitelist, the user-agent check is skipped
  whatever blacklist patterns the user-agent also contains; the known-bot IP check still
  runs after it. The request is rejected with reason "Known bot IP" when that check is
  enabled and the client identity is in the list, and is allowed otherwise.
\<close>

theorem whitelist_then_ip_check:
  assumes "has_required_headers cfg req"
    and "a \<in> set (allowed_user_agents cfg)"
    and "user_agent req = Some (pre @ m @ post)"
    and "lower m = lower a"
  shows "is_bot cfg req client_ip =
           (if block_known_bot_ips cfg \<and> client_ip \<in> set (known_bot_ips cfg)
            then (True, Some ''Known bot IP'') else (False, None))"
  using assms(1) whitelisted_not_bot_user_agent [OF assms(2) assms(4), of pre post]
  by (simp add: is_bot_def get_user_agent_def assms(3) is_known_bot_ip_def)

theorem whitelist_then_ip_check_witness:
  "any_pattern_in (bot_user_agent_patterns BOT_PROTECTION_CONFIG)
     (get_user_agent (ua_request ''curl InstaFit-Extension/1.0''))
   \<and> is_bot BOT_PROTECTION_CONFIG (ua_request ''curl InstaFit-Extension/1.0'') ''9.9.9.9''
       = (False, None)"
proof -
  let ?req = "ua_request ''curl InstaFit-Extension/1.0''"
  have h: "has_required_headers BOT_PROTECTION_CONFIG ?req"
    by (simp add: has_required_headers_def BOT_PROTECTION_CONFIG_def ua_request_def strip_def
        is_space_def)
  have a: "''instafit-extension'' \<in> set (allowed_user_agents BOT_PROTECTION_CONFIG)"
    by (simp add: BOT_PROTECTION_CONFIG_def)
  have u: "user_agent ?req = Some (''curl '' @ ''InstaFit-Extension'' @ ''/1.0'')"
    by (simp add: ua_request_def)
  have l: "lower ''InstaFit-Extension'' = lower ''instafit-extension''"
    by (simp add: lower_def lower_char_def)
  have b: "any_pattern_in (bot_user_agent_patterns BOT_PROTECTION_CONFIG) (get_user_agent ?req)"
    by (simp add: BOT_PROTECTION_CONFIG_def get_user_agent_def ua_request_def lower_def
        lower_char_def)
  have "is_bot BOT_PROTECTION_CONFIG ?req ''9.9.9.9'' = (False, None)"
    using whitelist_then_ip_check [OF h a u l, of "''9.9.9.9''"]
    by (simp add: BOT_PROTECTION_CONFIG_def)
  with b show ?thesis by simp
qed

text \<open>
  C2 as stated fails: with the known-bot IP check enabled and the identity in the list, a
  request whose user-agent is whitelisted passes the header check and is still rejected.
\<close>

theorem whitelist_short_circuit_counterexample:
  "has_required_headers ip_blocking_config (ua_request ''InstaFit-Extension/1.0'')
   \<and> any_pattern_in (allowed_user_agents ip_blocking_config)
        (get_user_agent (ua_request ''InstaFit-Extension/1.0''))
   \<and> is_bot ip_blocking_config (ua_request ''InstaFit-Extension/1.0'') ''6.6.6.6''
       = (True, Some ''Known bot IP'')"
  by (simp add: is_bot_def has_required_headers_def is_bot_user_agent_def is_known_bot_ip_def
      get_user_agent_def ip_blocking_config_def BOT_PROTECTION_CONFIG_def ua_request_def
      strip_def is_space_def lower_def lower_char_def)

section \<open>The gate and the store\<close>

text \<open>
  C8. When bot classification rejects the request, the gate returns the fixed
  "Access denied" / "Bot detection" response with status 403, carrying the reason that the
  classification gave, and the limiter's store is returned exactly as it was: nothing is
  pruned, inserted or recorded for any identity, and the wrapped view is not called.
\<close>

theorem bot_rejection_leaves_store:
  "fst (is_bot bot_cfg req (get_client_ip req)) \<Longrightarrow>
     rate_limit_and_protect f cfg bot_cfg now req s =
       (RespTuple (WithHeaders (jsonify (AccessDenied ''Access denied'' ''Bot detection''
            (snd (is_bot bot_cfg req (get_client_ip req)))))) 403, s)"
proof -
  assume b: "fst (is_bot bot_cfg req (get_client_ip req))"
  obtain bot reason where e: "is_bot bot_cfg req (get_client_ip req) = (bot, reason)"
    by (cases "is_bot bot_cfg req (get_client_ip req)")
  with b have "bot" by simp
  with e show ?thesis
    by (simp add: rate_limit_and_protect_def)
qed

theorem bot_rejection_leaves_store_witness:
  "fst (is_bot BOT_PROTECTION_CONFIG no_agent_request (get_client_ip no_agent_request))
   \<and> rate_limit_and_protect health_check RATE_LIMIT_CONFIG BOT_PROTECTION_CONFIG 5 no_agent_request
        (record_request 1 ''9.9.9.9'' Map.empty) =
       (RespTuple (WithHeaders (jsonify (AccessDenied ''Access denied'' ''Bot detection''
            (Some ''Missing required headers'')))) 403, record_request 1 ''9.9.9.9'' Map.empty)"
proof -
  have c: "get_client_ip no_agent_request = ''9.9.9.9''"
    by (simp add: get_client_ip_def no_agent_request_def strip_def is_space_def)
  have b: "is_bot BOT_PROTECTION_CONFIG no_agent_request ''9.9.9.9''
             = (True, Some ''Missing required headers'')"
    by (simp add: is_bot_def has_required_headers_def BOT_PROTECTION_CONFIG_def
        no_agent_request_def)
  then have h: "fst (is_bot BOT_PROTECTION_CONFIG no_agent_request (get_client_ip no_agent_request))"
    by (simp add: c)
  show ?thesis
    using h bot_rejection_leaves_store [OF h, of health_check RATE_LIMIT_CONFIG 5
        "record_request 1 ''9.9.9.9'' Map.empty"]
    by (simp add: c b)
qed

section \<open>Runs of operations\<close>

lemma run_append: "run cfg (ops @ ops') s = run cfg ops' (run cfg ops s)"
  by (induction ops arbitrary: s) auto

lemma operation_times_append:
  "operation_times (ops @ ops') = operation_times ops @ operation_times ops'"
  by (induction ops rule: operation_times.induct) auto

lemma all_windows: "(\<forall>w. P w) \<longleftrightarrow> P Minute \<and> P Hour \<and> P Day"
proof
  assume "\<forall>w. P w"
  then show "P Minute \<and> P Hour \<and> P Day" by simp
next
  assume a: "P Minute \<and> P Hour \<and> P Day"
  show "\<forall>w. P w"
  proof
    fix w show "P w" using a by (cases w) simp_all
  qed
qed

lemma is_rate_limited_Allowed_iff:
  "fst (is_rate_limited cfg t ip s) = Allowed \<longleftrightarrow>
     (\<forall>w. int (length (pruned cfg t (rec_of s ip) w)) < requests_per cfg w)"
  unfolding all_windows [of "\<lambda>w. int (length (pruned cfg t (rec_of s ip) w)) < requests_per cfg w"]
  by (simp add: is_rate_limited_eq Let_def not_le)

lemma is_rate_limited_Allowed_store:
  "fst (is_rate_limited cfg t ip s) = Allowed \<Longrightarrow>
     snd (is_rate_limited cfg t ip s) = s(ip \<mapsto> pruned cfg t (rec_of s ip))"
  by (simp add: is_rate_limited_eq Let_def split: if_splits)

lemma admit_and_record_Allowed:
  "fst (is_rate_limited cfg t ip s) = Allowed \<Longrightarrow>
     admit_and_record cfg t ip s =
       (Allowed, s(ip \<mapsto> (\<lambda>w. pruned cfg t (rec_of s ip) w @ [t])))"
proof -
  assume a: "fst (is_rate_limited cfg t ip s) = Allowed"
  then have "is_rate_limited cfg t ip s = (Allowed, s(ip \<mapsto> pruned cfg t (rec_of s ip)))"
    using is_rate_limited_Allowed_store [OF a] by (simp add: prod_eq_iff)
  then show ?thesis
    by (simp add: admit_and_record_def record_request_eq)
qed

lemma admit_and_record_Denied:
  "fst (is_rate_limited cfg t ip s) \<noteq> Allowed \<Longrightarrow>
     admit_and_record cfg t ip s = is_rate_limited cfg t ip s"
proof -
  assume a: "fst (is_rate_limited cfg t ip s) \<noteq> Allowed"
  obtain r s1 where e: "is_rate_limited cfg t ip s = (r, s1)"
    by (cases "is_rate_limited cfg t ip s")
  with a have "r \<noteq> Allowed" by simp
  then obtain w l c where "r = Denied w l c" by (cases r) simp_all
  with e show ?thesis by (simp add: admit_and_record_def)
qed

lemma rec_of_check:
  "rec_of (snd (is_rate_limited cfg t ip s)) ip' w = rec_of s ip' w
   \<or> rec_of (snd (is_rate_limited cfg t ip s)) ip' w
       = popleft_old t (window_seconds cfg w) (rec_of s ip' w)"
proof (cases "ip' = ip")
  case False
  then show ?thesis by (simp add: is_rate_limited_eq Let_def)
next
  case True
  then show ?thesis
    by (simp add: is_rate_limited_eq Let_def pruned_def)
qed

lemma rec_of_record:
  "rec_of (record_request t ip s) ip' w =
     (if ip' = ip then rec_of s ip w @ [t] else rec_of s ip' w)"
  by (simp add: record_request_eq)

lemma rec_of_remaining:
  "rec_of (snd (get_remaining_requests cfg t ip s)) ip' w =
     (if ip' = ip then popleft_old t (window_seconds cfg w) (rec_of s ip w) else rec_of s ip' w)"
  by (simp add: get_remaining_eq pruned_def)

lemma rec_of_fun_upd_None:
  "rec_of (s(ip := None)) ip' = (if ip' = ip then new_record else rec_of s ip')"
  by (simp add: rec_of_def)

lemma rec_of_reset:
  "rec_of (snd (reset_rate_limit ip s)) ip' w = (if ip' = ip then [] else rec_of s ip' w)"
proof (cases "s ip")
  case None
  then show ?thesis
    by (simp add: reset_rate_limit_def rec_of_None new_record_def)
next
  case (Some r)
  then show ?thesis
    by (simp add: reset_rate_limit_def rec_of_fun_upd_None new_record_def)
qed

lemma rec_of_serve:
  "rec_of (snd (admit_and_record cfg t ip s)) ip' w = rec_of s ip' w
   \<or> rec_of (snd (admit_and_record cfg t ip s)) ip' w
       = popleft_old t (window_seconds cfg w) (rec_of s ip' w)
   \<or> (fst (is_rate_limited cfg t ip s) = Allowed \<and> ip' = ip \<and>
      rec_of (snd (admit_and_record cfg t ip s)) ip' w
       = popleft_old t (window_seconds cfg w) (rec_of s ip' w) @ [t])"
proof (cases "fst (is_rate_limited cfg t ip s) = Allowed")
  case True
  then show ?thesis
    by (cases "ip' = ip") (simp_all add: admit_and_record_Allowed pruned_def)
next
  case False
  then show ?thesis
    using rec_of_check [of cfg t ip s ip' w] by (simp add: admit_and_record_Denied)
qed

section \<open>Ordering of the timestamp sequences\<close>

lemma sorted_popleft_old: "sorted ts \<Longrightarrow> sorted (popleft_old now W ts)"
  by (simp add: popleft_old_dropWhile sorted_dropWhile)

lemma set_popleft_old: "set (popleft_old now W ts) \<subseteq> set ts"
  by (induction ts) auto

lemma sorted_snoc_bound: "sorted ts \<Longrightarrow> \<forall>x\<in>set ts. x \<le> t \<Longrightarrow> sorted (ts @ [t])"
  by (simp add: sorted_append)

lemma popleft_old_sorted_filter:
  "sorted ts \<Longrightarrow>
     popleft_old now W ts = filter (\<lambda>t. now - t \<le> of_int W) ts"
proof (induction ts)
  case Nil
  show ?case by simp
next
  case (Cons a ts)
  show ?case
  proof (cases "now - a > of_int W")
    case True
    with Cons show ?thesis by simp
  next
    case False
    have "\<forall>b\<in>set ts. now - b \<le> of_int W"
    proof
      fix b assume "b \<in> set ts"
      with Cons.prems have "a \<le> b" by simp
      with False show "now - b \<le> of_int W" by linarith
    qed
    then have "filter (\<lambda>t. now - t \<le> of_int W) ts = ts" by simp
    with False show ?thesis by simp
  qed
qed

text \<open>The invariant of the store along a run with non-decreasing clock readings.\<close>

lemma apply_operation_sorted:
  assumes inv: "\<And>ip w. sorted (rec_of s ip w) \<and> set (rec_of s ip w) \<subseteq> T"
    and later: "\<forall>t\<in>set (operation_times [op]). \<forall>x\<in>T. x \<le> t"
  shows "sorted (rec_of (apply_operation cfg op s) ip w)
         \<and> set (rec_of (apply_operation cfg op s) ip w) \<subseteq> T \<union> set (operation_times [op])"
proof -
  let ?xs = "rec_of s ip w"
  let ?U = "T \<union> set (operation_times [op])"
  have s: "sorted ?xs" and b: "set ?xs \<subseteq> T" using inv by auto
  have g0: "sorted ?xs \<and> set ?xs \<subseteq> ?U" using s b by blast
  have ps: "sorted (popleft_old t W ?xs)" for t W using s by (rule sorted_popleft_old)
  have pb: "set (popleft_old t W ?xs) \<subseteq> T" for t W using set_popleft_old [of t W ?xs] b by blast
  have gp: "sorted (popleft_old t W ?xs) \<and> set (popleft_old t W ?xs) \<subseteq> ?U" for t W
    using ps [of t W] pb [of t W] by blast
  show ?thesis
  proof (cases op)
    case (Check i t)
    from rec_of_check [of cfg t i s ip w] show ?thesis
    proof
      assume "rec_of (snd (is_rate_limited cfg t i s)) ip w = ?xs"
      with g0 Check show ?thesis by simp
    next
      assume "rec_of (snd (is_rate_limited cfg t i s)) ip w
                = popleft_old t (window_seconds cfg w) ?xs"
      with gp [of t "window_seconds cfg w"] Check show ?thesis by simp
    qed
  next
    case (Record i t)
    have "\<forall>x\<in>set (rec_of s i w). x \<le> t"
      using inv [of i w] later Record by auto
    then have "sorted (rec_of s i w @ [t])"
      using inv [of i w] by (simp add: sorted_snoc_bound)
    then show ?thesis
      using Record s b inv [of i w] by (auto simp: rec_of_record)
  next
    case (Serve i t)
    have "\<forall>x\<in>set (popleft_old t (window_seconds cfg w) ?xs). x \<le> t"
      using pb [of t "window_seconds cfg w"] later Serve by auto
    then have sn: "sorted (popleft_old t (window_seconds cfg w) ?xs @ [t])"
      using ps by (simp add: sorted_snoc_bound)
    have bn: "set (popleft_old t (window_seconds cfg w) ?xs @ [t]) \<subseteq> ?U"
      using pb [of t "window_seconds cfg w"] Serve by auto
    from rec_of_serve [of cfg t i s ip w] consider
      "rec_of (snd (admit_and_record cfg t i s)) ip w = ?xs"
      | "rec_of (snd (admit_and_record cfg t i s)) ip w = popleft_old t (window_seconds cfg w) ?xs"
      | "rec_of (snd (admit_and_record cfg t i s)) ip w = popleft_old t (window_seconds cfg w) ?xs @ [t]"
      by blast
    then show ?thesis
    proof cases
      case 1
      with g0 Serve show ?thesis by simp
    next
      case 2
      with gp [of t "window_seconds cfg w"] Serve show ?thesis by simp
    next
      case 3
      with sn bn Serve show ?thesis by simp
    qed
  next
    case (Remaining i t)
    then show ?thesis
      using g0 gp [of t "window_seconds cfg w"] by (auto simp: rec_of_remaining)
  next
    case (Reset i)
    then show ?thesis
      using g0 by (auto simp: rec_of_reset)
  qed
qed

lemma run_sorted:
  "sorted (operation_times ops) \<Longrightarrow>
     sorted (rec_of (run cfg ops Map.empty) ip w)
     \<and> set (rec_of (run cfg ops Map.empty) ip w) \<subseteq> set (operation_times ops)"
proof (induction ops arbitrary: ip w rule: rev_induct)
  case Nil
  show ?case by (simp add: rec_of_None new_record_def)
next
  case (snoc op ops)
  from snoc.prems have so: "sorted (operation_times ops)"
    and la: "\<forall>t\<in>set (operation_times [op]). \<forall>x\<in>set (operation_times ops). x \<le> t"
    by (auto simp: operation_times_append sorted_append)
  have inv: "\<And>ip w. sorted (rec_of (run cfg ops Map.empty) ip w)
              \<and> set (rec_of (run cfg ops Map.empty) ip w) \<subseteq> set (operation_times ops)"
    using snoc.IH [OF so] by blast
  show ?case
    using apply_operation_sorted [of "run cfg ops Map.empty" "set (operation_times ops)" op cfg ip w,
        OF inv la]
    by (simp add: run_append operation_times_append)
qed

text \<open>
  C5. Along any run of limiter operations from the empty store whose clock readings are
  non-decreasing, every sequence of every identity is sorted in non-decreasing order, and
  recording at a reading \<open>now\<close> that is not before the earlier ones appends \<open>now\<close> at the
  tail and keeps the sequence sorted. Pruning a window at such a \<open>now\<close> keeps exactly the
  timestamps \<open>t\<close> with \<open>now - t\<close> at most the window's duration (so on the sorted sequence
  it is a prefix trim that equals the filter), and every retained timestamp lies between
  \<open>now\<close> minus the duration and \<open>now\<close>.
\<close>

theorem timestamps_sorted_prefix_trim:
  assumes "sorted (operation_times ops)"
    and "\<forall>t\<in>set (operation_times ops). t \<le> now"
  shows "sorted (rec_of (run cfg ops Map.empty) ip w)
     \<and> rec_of (record_request now ip (run cfg ops Map.empty)) ip w
         = rec_of (run cfg ops Map.empty) ip w @ [now]
     \<and> sorted (rec_of (record_request now ip (run cfg ops Map.empty)) ip w)
     \<and> rec_of (cleanup_old_requests cfg now ip w (run cfg ops Map.empty)) ip w
         = filter (\<lambda>t. now - t \<le> of_int (window_seconds cfg w))
             (rec_of (run cfg ops Map.empty) ip w)
     \<and> (\<forall>t\<in>set (rec_of (cleanup_old_requests cfg now ip w (run cfg ops Map.empty)) ip w).
           now - of_int (window_seconds cfg w) \<le> t \<and> t \<le> now)"
proof -
  let ?xs = "rec_of (run cfg ops Map.empty) ip w"
  have s: "sorted ?xs" and b: "set ?xs \<subseteq> set (operation_times ops)"
    using run_sorted [OF assms(1), of cfg ip w] by auto
  from b assms(2) have le: "\<forall>x\<in>set ?xs. x \<le> now" by blast
  have f: "popleft_old now (window_seconds cfg w) ?xs
             = filter (\<lambda>t. now - t \<le> of_int (window_seconds cfg w)) ?xs"
    using s by (rule popleft_old_sorted_filter)
  have r: "\<forall>t\<in>set (filter (\<lambda>t. now - t \<le> of_int (window_seconds cfg w)) ?xs).
             now - of_int (window_seconds cfg w) \<le> t \<and> t \<le> now"
    using le by auto
  show ?thesis
    using s le f r by (simp add: rec_of_cleanup_same rec_of_record sorted_snoc_bound)
qed

theorem timestamps_sorted_prefix_trim_witness:
  "sorted (operation_times [Record ''9.9.9.9'' 10, Remaining ''9.9.9.9'' 20, Record ''9.9.9.9'' 50])
   \<and> list_all (\<lambda>t. t \<le> 100)
        (operation_times [Record ''9.9.9.9'' 10, Remaining ''9.9.9.9'' 20, Record ''9.9.9.9'' 50])
   \<and> rec_of (run RATE_LIMIT_CONFIG
               [Record ''9.9.9.9'' 10, Remaining ''9.9.9.9'' 20, Record ''9.9.9.9'' 50] Map.empty)
        ''9.9.9.9'' Minute = [10, 50]
   \<and> rec_of (cleanup_old_requests RATE_LIMIT_CONFIG 100 ''9.9.9.9'' Minute
        (run RATE_LIMIT_CONFIG
           [Record ''9.9.9.9'' 10, Remaining ''9.9.9.9'' 20, Record ''9.9.9.9'' 50] Map.empty))
        ''9.9.9.9'' Minute = [50]"
proof -
  let ?ops = "[Record ''9.9.9.9'' 10, Remaining ''9.9.9.9'' 20, Record ''9.9.9.9'' 50]"
  have a: "sorted (operation_times ?ops)" by simp
  have b: "\<forall>t\<in>set (operation_times ?ops). t \<le> 100" by simp
  have r: "rec_of (run RATE_LIMIT_CONFIG ?ops Map.empty) ''9.9.9.9'' Minute = [10, 50]"
    by (simp add: record_request_eq get_remaining_eq rec_of_None new_record_def pruned_def
        RATE_LIMIT_CONFIG_def)
  show ?thesis
    using timestamps_sorted_prefix_trim [OF a b, of RATE_LIMIT_CONFIG "''9.9.9.9''" Minute] a r
    by (simp add: RATE_LIMIT_CONFIG_def)
qed

section \<open>Remaining quota\<close>

lemma apply_operation_bounded:
  assumes inv: "\<And>ip w. int (length (rec_of s ip w)) \<le> requests_per cfg w"
    and chk: "\<not> bare_record op"
    and nn: "\<And>w. 0 \<le> requests_per cfg w"
  shows "int (length (rec_of (apply_operation cfg op s) ip w)) \<le> requests_per cfg w"
proof -
  let ?xs = "rec_of s ip w"
  have g0: "int (length ?xs) \<le> requests_per cfg w" by (rule inv)
  have gp: "int (length (popleft_old t W ?xs)) \<le> requests_per cfg w" for t W
    using length_popleft_old [of t W ?xs] g0 by linarith
  show ?thesis
  proof (cases op)
    case (Check i t)
    from rec_of_check [of cfg t i s ip w] show ?thesis
    proof
      assume "rec_of (snd (is_rate_limited cfg t i s)) ip w = ?xs"
      with g0 Check show ?thesis by simp
    next
      assume "rec_of (snd (is_rate_limited cfg t i s)) ip w
                = popleft_old t (window_seconds cfg w) ?xs"
      with gp [of t "window_seconds cfg w"] Check show ?thesis by simp
    qed
  next
    case (Record i t)
    with chk show ?thesis by simp
  next
    case (Serve i t)
    from rec_of_serve [of cfg t i s ip w] consider
      "rec_of (snd (admit_and_record cfg t i s)) ip w = ?xs"
      | "rec_of (snd (admit_and_record cfg t i s)) ip w = popleft_old t (window_seconds cfg w) ?xs"
      | "fst (is_rate_limited cfg t i s) = Allowed" "ip = i"
        "rec_of (snd (admit_and_record cfg t i s)) ip w = popleft_old t (window_seconds cfg w) ?xs @ [t]"
      by blast
    then show ?thesis
    proof cases
      case 1
      with g0 Serve show ?thesis by simp
    next
      case 2
      with gp [of t "window_seconds cfg w"] Serve show ?thesis by simp
    next
      case 3
      from 3(1) have "int (length (pruned cfg t (rec_of s i) w)) < requests_per cfg w"
        by (simp add: is_rate_limited_Allowed_iff)
      with 3(2) have "int (length (popleft_old t (window_seconds cfg w) ?xs)) < requests_per cfg w"
        by (simp add: pruned_def)
      with 3(3) Serve show ?thesis by simp
    qed
  next
    case (Remaining i t)
    then show ?thesis
      using g0 gp [of t "window_seconds cfg w"] by (auto simp: rec_of_remaining)
  next
    case (Reset i)
    then show ?thesis
      using g0 nn [of w] by (auto simp: rec_of_reset)
  qed
qed

lemma run_bounded:
  assumes "list_all (\<lambda>op. \<not> bare_record op) ops"
    and "\<And>w. 0 \<le> requests_per cfg w"
    and "\<And>ip w. int (length (rec_of s ip w)) \<le> requests_per cfg w"
  shows "int (length (rec_of (run cfg ops s) ip w)) \<le> requests_per cfg w"
  using assms
proof (induction ops arbitrary: s ip w)
  case Nil
  then show ?case by simp
next
  case (Cons op ops)
  have "\<And>ip w. int (length (rec_of (apply_operation cfg op s) ip w)) \<le> requests_per cfg w"
    using Cons.prems by (intro apply_operation_bounded) simp_all
  with Cons.prems(1,2) show ?case
    using Cons.IH [of "apply_operation cfg op s" ip w] by simp
qed

lemma remaining_fst:
  "fst (get_remaining_requests cfg now ip s) w =
     requests_per cfg w - int (length (rec_of (cleanup_old_requests cfg now ip w s) ip w))"
  by (simp add: get_remaining_eq rec_of_cleanup_same pruned_def)

text \<open>
  C3 (as the code has it). For every store the remaining-quota query returns, per window,
  the ceiling minus the length of the pruned sequence. When the ceilings are not negative
  and the store was reached from the empty store by operations other than a bare record
  (checks, the gate's check-then-record, remaining-quota queries and resets), the figure
  is not negative.
\<close>

theorem remaining_after_checked_operations:
  assumes "list_all (\<lambda>op. \<not> bare_record op) ops"
    and "\<forall>w. 0 \<le> requests_per cfg w"
  shows "fst (get_remaining_requests cfg now ip s) w =
           requests_per cfg w - int (length (rec_of (cleanup_old_requests cfg now ip w s) ip w))
       \<and> 0 \<le> fst (get_remaining_requests cfg now ip (run cfg ops Map.empty)) w"
proof -
  have "int (length (rec_of (run cfg ops Map.empty) ip w)) \<le> requests_per cfg w"
    using assms by (intro run_bounded) (simp_all add: rec_of_None new_record_def)
  moreover have "length (popleft_old now (window_seconds cfg w) (rec_of (run cfg ops Map.empty) ip w))
                   \<le> length (rec_of (run cfg ops Map.empty) ip w)"
    by (rule length_popleft_old)
  ultimately have "0 \<le> fst (get_remaining_requests cfg now ip (run cfg ops Map.empty)) w"
    by (simp add: remaining_fst rec_of_cleanup_same)
  then show ?thesis by (simp add: remaining_fst)
qed

theorem remaining_after_checked_operations_witness:
  "list_all (\<lambda>op. \<not> bare_record op)
     [Serve ''9.9.9.9'' 0, Serve ''9.9.9.9'' 0, Serve ''9.9.9.9'' 0, Serve ''9.9.9.9'' 0]
   \<and> 0 \<le> fst (get_remaining_requests RATE_LIMIT_CONFIG 0 ''9.9.9.9''
        (run RATE_LIMIT_CONFIG
           [Serve ''9.9.9.9'' 0, Serve ''9.9.9.9'' 0, Serve ''9.9.9.9'' 0, Serve ''9.9.9.9'' 0]
           Map.empty)) Minute"
proof -
  let ?ops = "[Serve ''9.9.9.9'' 0, Serve ''9.9.9.9'' 0, Serve ''9.9.9.9'' 0, Serve ''9.9.9.9'' 0]"
  have a: "list_all (\<lambda>op. \<not> bare_record op) ?ops" by simp
  have n: "\<forall>w. 0 \<le> requests_per RATE_LIMIT_CONFIG w"
    unfolding all_windows [of "\<lambda>w. 0 \<le> requests_per RATE_LIMIT_CONFIG w"]
    by (simp add: RATE_LIMIT_CONFIG_def)
  from a remaining_after_checked_operations [OF a n, of 0 "''9.9.9.9''" Map.empty Minute]
  show ?thesis by blast
qed

text \<open>
  C3 as stated fails: four direct record calls for one identity at the same instant leave
  four timestamps in the minute window, and the query reports 3 - 4 = -1.
\<close>

theorem remaining_negative_counterexample:
  "fst (get_remaining_requests RATE_LIMIT_CONFIG 0 ''9.9.9.9''
     (run RATE_LIMIT_CONFIG
        [Record ''9.9.9.9'' 0, Record ''9.9.9.9'' 0, Record ''9.9.9.9'' 0, Record ''9.9.9.9'' 0]
        Map.empty)) Minute = - 1"
  by (simp add: record_request_eq get_remaining_eq rec_of_None new_record_def pruned_def
      RATE_LIMIT_CONFIG_def)

section \<open>Admission up to the ceiling\<close>

lemma admit_sequence_Cons:
  "admit_sequence cfg ip (t # ts) s =
     (fst (admit_and_record cfg t ip s)
        # fst (admit_sequence cfg ip ts (snd (admit_and_record cfg t ip s))),
      snd (admit_sequence cfg ip ts (snd (admit_and_record cfg t ip s))))"
  by (simp add: Let_def split_beta)

lemma admit_sequence_append:
  "fst (admit_sequence cfg ip (xs @ ys) s) =
     fst (admit_sequence cfg ip xs s) @ fst (admit_sequence cfg ip ys (snd (admit_sequence cfg ip xs s)))"
  by (induction xs arbitrary: s) (simp_all add: admit_sequence_Cons del: admit_sequence.simps(2))

lemma admit_sequence_allowed:
  assumes "length (rec_of s ip Minute) = k"
    and "set (rec_of s ip Minute) \<subseteq> A"
    and "\<And>w. length (rec_of s ip w) \<le> k"
    and "set ts \<subseteq> A"
    and "\<forall>a\<in>A. \<forall>b\<in>A. a - b \<le> of_int (minute_window cfg)"
    and "\<And>w. int (k + length ts) \<le> requests_per cfg w"
  shows "fst (admit_sequence cfg ip ts s) = replicate (length ts) Allowed
       \<and> rec_of (snd (admit_sequence cfg ip ts s)) ip Minute = rec_of s ip Minute @ ts"
  using assms
proof (induction ts arbitrary: s k)
  case Nil
  show ?case by simp
next
  case (Cons t ts)
  let ?r = "rec_of s ip"
  have tA: "t \<in> A" using Cons.prems(4) by simp
  have fresh: "\<forall>x\<in>set (?r Minute). t - x \<le> of_int (minute_window cfg)"
    using Cons.prems(2,5) tA by blast
  have pm: "pruned cfg t ?r Minute = ?r Minute"
    using fresh by (simp add: pruned_def popleft_old_fresh)
  have lt: "int (length (pruned cfg t ?r w)) < requests_per cfg w" for w
  proof -
    have "length (pruned cfg t ?r w) \<le> k"
      using length_pruned [of cfg t ?r w] Cons.prems(3) [of w] by linarith
    moreover have "int (k + length (t # ts)) \<le> requests_per cfg w"
      by (rule Cons.prems(6))
    ultimately show ?thesis by simp
  qed
  then have al: "fst (is_rate_limited cfg t ip s) = Allowed"
    by (simp add: is_rate_limited_Allowed_iff)
  let ?s1 = "s(ip \<mapsto> (\<lambda>w. pruned cfg t ?r w @ [t]))"
  have step: "admit_and_record cfg t ip s = (Allowed, ?s1)"
    using al by (rule admit_and_record_Allowed)
  have m1: "rec_of ?s1 ip Minute = ?r Minute @ [t]"
    by (simp add: pm)
  have IH: "fst (admit_sequence cfg ip ts ?s1) = replicate (length ts) Allowed
       \<and> rec_of (snd (admit_sequence cfg ip ts ?s1)) ip Minute = rec_of ?s1 ip Minute @ ts"
  proof (rule Cons.IH [of ?s1 "Suc k"])
    show "length (rec_of ?s1 ip Minute) = Suc k"
      using Cons.prems(1) by (simp add: pm)
    show "set (rec_of ?s1 ip Minute) \<subseteq> A"
      using Cons.prems(2) tA by (simp add: pm)
    show "length (rec_of ?s1 ip w) \<le> Suc k" for w
      using length_pruned [of cfg t ?r w] Cons.prems(3) [of w] by simp
    show "set ts \<subseteq> A" using Cons.prems(4) by simp
    show "\<forall>a\<in>A. \<forall>b\<in>A. a - b \<le> of_int (minute_window cfg)" by (rule Cons.prems(5))
    show "int (Suc k + length ts) \<le> requests_per cfg w" for w
      using Cons.prems(6) [of w] by simp
  qed
  show ?case
    using IH by (simp add: admit_sequence_Cons step pm del: admit_sequence.simps(2))
qed

text \<open>
  C1. Take an identity with no stored timestamps, a configuration whose minute ceiling is
  not negative and not above the hour and day ceilings, and clock readings that all lie
  within one minute window of each other. When the gate's check-then-record is run at as
  many readings as the minute ceiling and then once more, every one of the first calls is
  allowed and the last is denied by the minute window, with limit and current count both
  equal to the ceiling. With the shipped configuration (3 / 15 / 30) and identity
  "9.9.9.9" the results of four calls are Allowed, Allowed, Allowed, Denied minute 3 3.
\<close>

theorem ceiling_requests_then_denied:
  assumes "\<forall>w. rec_of s ip w = []"
    and "0 \<le> requests_per_minute cfg"
    and "requests_per_minute cfg \<le> requests_per_hour cfg"
    and "requests_per_minute cfg \<le> requests_per_day cfg"
    and "length ts = nat (requests_per_minute cfg)"
    and "\<forall>a\<in>set (ts @ [t]). \<forall>b\<in>set (ts @ [t]). a - b \<le> of_int (minute_window cfg)"
  shows "fst (admit_sequence cfg ip (ts @ [t]) s) =
           replicate (nat (requests_per_minute cfg)) Allowed
           @ [Denied Minute (requests_per_minute cfg) (requests_per_minute cfg)]"
proof -
  let ?A = "set (ts @ [t])"
  have cl: "int (0 + length ts) \<le> requests_per cfg w" for w
    using assms(2-5) by (cases w) simp_all
  have a: "fst (admit_sequence cfg ip ts s) = replicate (length ts) Allowed
       \<and> rec_of (snd (admit_sequence cfg ip ts s)) ip Minute = rec_of s ip Minute @ ts"
  proof (rule admit_sequence_allowed [where k = 0 and A = ?A])
    show "length (rec_of s ip Minute) = 0" using assms(1) by simp
    show "set (rec_of s ip Minute) \<subseteq> ?A" using assms(1) by simp
    show "length (rec_of s ip w) \<le> 0" for w using assms(1) by simp
    show "set ts \<subseteq> ?A" by auto
    show "\<forall>a\<in>?A. \<forall>b\<in>?A. a - b \<le> of_int (minute_window cfg)" by (rule assms(6))
    show "int (0 + length ts) \<le> requests_per cfg w" for w by (rule cl)
  qed
  let ?s' = "snd (admit_sequence cfg ip ts s)"
  have m: "rec_of ?s' ip Minute = ts" using a assms(1) by simp
  have fresh: "\<forall>x\<in>set ts. t - x \<le> of_int (minute_window cfg)"
    using assms(6) by simp
  have pm: "pruned cfg t (rec_of ?s' ip) Minute = ts"
    using fresh by (simp add: pruned_def m popleft_old_fresh)
  have len: "int (length ts) = requests_per_minute cfg"
    using assms(2,5) by simp
  have d: "fst (is_rate_limited cfg t ip ?s')
             = Denied Minute (requests_per_minute cfg) (requests_per_minute cfg)"
    by (simp add: is_rate_limited_eq Let_def pm len)
  then have "fst (is_rate_limited cfg t ip ?s') \<noteq> Allowed" by simp
  then have "admit_and_record cfg t ip ?s' = is_rate_limited cfg t ip ?s'"
    by (rule admit_and_record_Denied)
  with d have "fst (admit_sequence cfg ip [t] ?s')
                = [Denied Minute (requests_per_minute cfg) (requests_per_minute cfg)]"
    by (simp add: admit_sequence_Cons del: admit_sequence.simps(2))
  with a assms(5) show ?thesis
    by (simp add: admit_sequence_append)
qed

theorem ceiling_requests_then_denied_witness:
  "fst (admit_sequence RATE_LIMIT_CONFIG ''9.9.9.9'' [0, 10, 20, 59] Map.empty)
     = [Allowed, Allowed, Allowed, Denied Minute 3 3]"
proof -
  have e: "\<forall>w. rec_of (Map.empty :: storage) ''9.9.9.9'' w = []"
    by (simp add: rec_of_None new_record_def)
  have w: "\<forall>a\<in>set ([0, 10, 20] @ [59::real]). \<forall>b\<in>set ([0, 10, 20] @ [59]).
             a - b \<le> of_int (minute_window RATE_LIMIT_CONFIG)"
    by (simp add: RATE_LIMIT_CONFIG_def)
  have "fst (admit_sequence RATE_LIMIT_CONFIG ''9.9.9.9'' ([0, 10, 20] @ [59]) Map.empty) =
           replicate (nat (requests_per_minute RATE_LIMIT_CONFIG)) Allowed
           @ [Denied Minute (requests_per_minute RATE_LIMIT_CONFIG)
                (requests_per_minute RATE_LIMIT_CONFIG)]"
    by (rule ceiling_requests_then_denied [OF e _ _ _ _ w])
       (simp_all add: RATE_LIMIT_CONFIG_def)
  then show ?thesis
    by (simp add: RATE_LIMIT_CONFIG_def numeral_3_eq_3)
qed

end
